theory Spec2Isabelle
  imports Complex_Main
begin

section \<open>Arrays\<close>

text \<open>
  The notebook handles image batches as numpy arrays. An array is its shape together with
  its entries in row-major order; a batch of \<open>N\<close> colour images of 64 by 64 pixels has
  shape \<open>[N, 3, 64, 64]\<close>. Every failure of the notebook is an uncaught Python exception,
  which aborts the run; the model returns it as a value.
\<close>

datatype error = FileNotFoundError | IndexError | ValueError

record 'a ndarray =
  shape :: "nat list"
  data :: "'a list"

text \<open>
  \<^verbatim>\<open>np.concatenate((a1, ..., ak), axis=0)\<close>: the arrays must have at least one
  dimension and agree on every dimension but the first; in row-major order the result's
  entries are those of the arguments, one array after the other.
\<close>

definition same_tail :: "nat list \<Rightarrow> nat list \<Rightarrow> bool" where
  "same_tail s t = (case (s, t) of (m # ms, n # ns) \<Rightarrow> ms = ns | _ \<Rightarrow> False)"

definition first_dim :: "'a ndarray \<Rightarrow> nat" where
  "first_dim a = (case shape a of [] \<Rightarrow> 0 | n # ns \<Rightarrow> n)"

fun concatenate :: "'a ndarray list \<Rightarrow> error + 'a ndarray" where
  "concatenate [] = Inl ValueError"
| "concatenate (a # as) =
     (if list_all (\<lambda>b. same_tail (shape a) (shape b)) (a # as)
      then Inr \<lparr>shape = sum_list (map first_dim (a # as)) # tl (shape a),
                data = concat (map data (a # as))\<rparr>
      else Inl ValueError)"

text \<open>
  \<^verbatim>\<open>features = features/255\<close> under Python 3: true division of every entry by the
  scalar 255. The entries of the result are taken as exact quotients.
\<close>

definition standardize :: "int ndarray \<Rightarrow> real ndarray" where
  "standardize features =
     \<lparr>shape = shape features, data = map (\<lambda>v. real_of_int v / 255) (data features)\<rparr>"

section \<open>Layers and shapes\<close>

datatype activation = Relu | Sigmoid

datatype padding = Same | Valid

text \<open>
  The four layer classes the notebook instantiates, with the arguments it passes; strides
  are left at their defaults (1 for a convolution, the pool size for a pooling).
\<close>

datatype layer =
    Conv2D nat "nat \<times> nat" activation padding
  | MaxPooling2D "nat \<times> nat" padding
  | UpSampling2D "nat \<times> nat"
  | Flatten

text \<open>
  Modelled from the spec: the layer classes belong to the Keras library, which is not among
  the sources. Their shape rules for channels-first data (the notebook selects the
  \<^verbatim>\<open>'th'\<close> ordering) are written down here as the library documents them: with
  \<^verbatim>\<open>'same'\<close> padding a window of stride \<open>s\<close> maps a length \<open>n\<close> to the ceiling of
  \<open>n / s\<close>; upsampling multiplies each spatial length by its factor; flattening takes
  an input of at least three dimensions, keeps the sample axis and multiplies the others.
  An input of the wrong rank is refused.
\<close>

definition conv_output_length :: "nat \<Rightarrow> nat \<Rightarrow> padding \<Rightarrow> nat \<Rightarrow> error + nat" where
  "conv_output_length input_length filter_size pad stride =
     (case pad of
        Same \<Rightarrow> Inr ((input_length + stride - 1) div stride)
      | Valid \<Rightarrow>
          if input_length < filter_size then Inl ValueError
          else Inr ((input_length - filter_size + 1 + stride - 1) div stride))"

definition spatial :: "nat \<Rightarrow> nat \<Rightarrow> error + nat \<Rightarrow> error + nat \<Rightarrow> error + nat list" where
  "spatial n c rows cols =
     (case rows of
        Inl e \<Rightarrow> Inl e
      | Inr h \<Rightarrow> (case cols of Inl e \<Rightarrow> Inl e | Inr w \<Rightarrow> Inr [n, c, h, w]))"

fun compute_output_shape :: "layer \<Rightarrow> nat list \<Rightarrow> error + nat list" where
  "compute_output_shape (Conv2D filters (kh, kw) act pad) [n, c, h, w] =
     spatial n filters (conv_output_length h kh pad 1) (conv_output_length w kw pad 1)"
| "compute_output_shape (MaxPooling2D (ph, pw) pad) [n, c, h, w] =
     spatial n c (conv_output_length h ph pad ph) (conv_output_length w pw pad pw)"
| "compute_output_shape (UpSampling2D (sh, sw)) [n, c, h, w] = Inr [n, c, sh * h, sw * w]"
| "compute_output_shape Flatten (n # c # h # rest) = Inr [n, prod_list (c # h # rest)]"
| "compute_output_shape l s = Inl ValueError"

fun output_shape :: "layer list \<Rightarrow> nat list \<Rightarrow> error + nat list" where
  "output_shape [] s = Inr s"
| "output_shape (l # ls) s =
     (case compute_output_shape l s of Inl e \<Rightarrow> Inl e | Inr s' \<Rightarrow> output_shape ls s')"

section \<open>Model architecture\<close>

text \<open>The encoder stages \<^verbatim>\<open>conv1, pool1, ..., conv7, pool7\<close> of the notebook.\<close>

definition encoder_stages :: "layer list" where
  "encoder_stages =
     [Conv2D 496 (3, 3) Relu Same, MaxPooling2D (2, 2) Same,
      Conv2D 248 (3, 3) Relu Same, MaxPooling2D (2, 2) Same,
      Conv2D 124 (3, 3) Relu Same, MaxPooling2D (2, 2) Same,
      Conv2D 64 (3, 3) Relu Same, MaxPooling2D (2, 2) Same,
      Conv2D 32 (3, 3) Relu Same, MaxPooling2D (2, 2) Same,
      Conv2D 16 (3, 3) Relu Same, MaxPooling2D (2, 2) Same,
      Conv2D 16 (3, 3) Relu Same, MaxPooling2D (2, 2) Same]"

text \<open>The decoder stages \<^verbatim>\<open>conv8, up1, ..., conv14, up7\<close> and the layer \<^verbatim>\<open>decoded\<close>.\<close>

definition decoder_stages :: "layer list" where
  "decoder_stages =
     [Conv2D 16 (3, 3) Relu Same, UpSampling2D (2, 2),
      Conv2D 16 (3, 3) Relu Same, UpSampling2D (2, 2),
      Conv2D 32 (3, 3) Relu Same, UpSampling2D (2, 2),
      Conv2D 64 (3, 3) Relu Same, UpSampling2D (2, 2),
      Conv2D 124 (3, 3) Relu Same, UpSampling2D (2, 2),
      Conv2D 248 (3, 3) Relu Same, UpSampling2D (1, 1),
      Conv2D 496 (3, 3) Relu Same, UpSampling2D (2, 2),
      Conv2D 3 (5, 5) Sigmoid Same]"

text \<open>
  \<^verbatim>\<open>Model(input_layer, decoded)\<close> runs through the encoder and the decoder stages;
  \<^verbatim>\<open>Model(input_layer, encoded)\<close> runs through the encoder stages and the flattening.
\<close>

definition input_shape :: "nat list" where
  "input_shape = [3, 64, 64]"

definition autoencoder_layers :: "layer list" where
  "autoencoder_layers = encoder_stages @ decoder_stages"

definition encoder_layers :: "layer list" where
  "encoder_layers = encoder_stages @ [Flatten]"

section \<open>Training\<close>

text \<open>
  The arguments of \<^verbatim>\<open>compile\<close>, of \<^verbatim>\<open>EarlyStopping\<close> and of \<^verbatim>\<open>fit\<close>. The
  argument \<^verbatim>\<open>verbose\<close> of the callback only selects what is printed and is left out.
\<close>

record compile_args =
  optimizer :: string
  loss :: string

datatype mode = Auto | Min | Max

record EarlyStopping =
  monitor :: string
  min_delta :: real
  patience :: nat
  mode :: mode

record fit_args =
  epochs :: nat
  batch_size :: nat
  validation_split :: real
  callbacks :: "EarlyStopping list"

text \<open>
  What the numeric library computes is left open: the weights a new layer object is
  initialised with, the weights after one pass over the training part of the data, and the
  validation loss after that pass. All three are parameters of the model, and every
  statement below holds whatever they are. A layer object is known by its identity.
\<close>

type_synonym lid = nat

record 'w backend =
  initializer :: "lid \<Rightarrow> 'w"
  train_epoch :: "compile_args \<Rightarrow> fit_args \<Rightarrow> real ndarray \<Rightarrow> real ndarray \<Rightarrow> 'w list \<Rightarrow> 'w list"
  val_loss :: "compile_args \<Rightarrow> fit_args \<Rightarrow> real ndarray \<Rightarrow> real ndarray \<Rightarrow> 'w list \<Rightarrow> real"

text \<open>
  Modelled from the spec: the callback class and the epoch loop of \<^verbatim>\<open>fit\<close> belong to
  the Keras library, which is not among the sources. The callback watches the validation
  loss: a pass improves when the loss, shifted by \<open>min_delta\<close>, beats the best value seen
  so far in the monitored direction (downwards unless the mode is \<^verbatim>\<open>'max'\<close>, or
  \<^verbatim>\<open>'auto'\<close> with a monitored quantity whose name contains \<^verbatim>\<open>acc\<close>); otherwise the
  callback counts the pass, and once \<open>patience\<close> passes in a row have been counted it
  asks the training to stop. The best value starts at infinity, here \<open>None\<close>, and every
  \<^verbatim>\<open>fit\<close> call resets the callback. The loop makes at most \<open>epochs\<close> passes and leaves
  after the first pass at whose end a stop has been asked for.
\<close>

fun contains :: "'a list \<Rightarrow> 'a list \<Rightarrow> bool" where
  "contains p [] = (p = [])"
| "contains p (c # cs) = (take (length p) (c # cs) = p \<or> contains p cs)"

definition monitor_less :: "EarlyStopping \<Rightarrow> bool" where
  "monitor_less es =
     (case mode es of Min \<Rightarrow> True | Max \<Rightarrow> False | Auto \<Rightarrow> \<not> contains ''acc'' (monitor es))"

record es_state =
  wait :: nat
  best :: "real option"
  stopped_epoch :: nat
  stop_asked :: bool

definition on_train_begin :: "EarlyStopping \<Rightarrow> es_state" where
  "on_train_begin es = \<lparr>wait = 0, best = None, stopped_epoch = 0, stop_asked = False\<rparr>"

definition improved :: "EarlyStopping \<Rightarrow> real \<Rightarrow> real option \<Rightarrow> bool" where
  "improved es current b =
     (case b of
        None \<Rightarrow> True
      | Some v \<Rightarrow> if monitor_less es then current + min_delta es < v
                  else current - min_delta es > v)"

definition on_epoch_end :: "EarlyStopping \<Rightarrow> nat \<Rightarrow> real \<Rightarrow> es_state \<Rightarrow> es_state" where
  "on_epoch_end es epoch current s =
     (if improved es current (best s) then s\<lparr>best := Some current, wait := 0\<rparr>
      else if patience es \<le> wait s + 1
           then s\<lparr>wait := wait s + 1, stopped_epoch := epoch, stop_asked := True\<rparr>
           else s\<lparr>wait := wait s + 1\<rparr>)"

record 'w training =
  params :: "'w list"
  cbs :: "es_state list"
  epochs_run :: nat

definition stop_training :: "'w training \<Rightarrow> bool" where
  "stop_training t = list_ex stop_asked (cbs t)"

definition run_epoch ::
  "'w backend \<Rightarrow> compile_args \<Rightarrow> fit_args \<Rightarrow> real ndarray \<Rightarrow> real ndarray \<Rightarrow> nat
     \<Rightarrow> 'w training \<Rightarrow> 'w training" where
  "run_epoch B ca fa x y epoch t =
     (let ws = train_epoch B ca fa x y (params t);
          current = val_loss B ca fa x y ws
      in \<lparr>params = ws,
          cbs = map2 (\<lambda>es s. on_epoch_end es epoch current s) (callbacks fa) (cbs t),
          epochs_run = Suc epoch\<rparr>)"

text \<open>
  \<^verbatim>\<open>for epoch in range(epochs)\<close>: the first argument counts the passes still allowed, the
  second is the number of the pass about to run.
\<close>

fun epoch_loop ::
  "'w backend \<Rightarrow> compile_args \<Rightarrow> fit_args \<Rightarrow> real ndarray \<Rightarrow> real ndarray \<Rightarrow> nat \<Rightarrow> nat
     \<Rightarrow> 'w training \<Rightarrow> 'w training" where
  "epoch_loop B ca fa x y 0 epoch t = t"
| "epoch_loop B ca fa x y (Suc k) epoch t =
     (let t' = run_epoch B ca fa x y epoch t
      in if stop_training t' then t' else epoch_loop B ca fa x y k (Suc epoch) t')"

definition fit_loop ::
  "'w backend \<Rightarrow> compile_args \<Rightarrow> fit_args \<Rightarrow> real ndarray \<Rightarrow> real ndarray \<Rightarrow> 'w list
     \<Rightarrow> 'w training" where
  "fit_loop B ca fa x y ws =
     epoch_loop B ca fa x y (epochs fa) 0
       \<lparr>params = ws, cbs = map on_train_begin (callbacks fa), epochs_run = 0\<rparr>"

section \<open>Models as objects\<close>

text \<open>
  A model is its input shape and its layers from input to output, every layer with the
  identity of its object. The notebook's state is the weights of every layer object built
  so far, the next free identity, the model files written, and the \<^verbatim>\<open>fit\<close> calls made
  so far in the order they were made: for each call the arguments given to
  \<^verbatim>\<open>compile\<close> and \<^verbatim>\<open>fit\<close>, the layer objects of the model it was called on, and the
  weights these had when the call was made.
\<close>

record model =
  inputs :: "nat list"
  chain :: "(lid \<times> layer) list"

type_synonym json = "nat list \<times> layer list"

type_synonym 'w h5 = "json \<times> 'w list"

record 'w fit_call =
  call_compile :: compile_args
  call_fit :: fit_args
  call_lids :: "lid list"
  call_start :: "'w list"

record 'w notebook =
  heap :: "lid \<Rightarrow> 'w"
  next_lid :: lid
  disk :: "string \<rightharpoonup> 'w h5"
  calls :: "'w fit_call list"

definition lids :: "model \<Rightarrow> lid list" where
  "lids m = map fst (chain m)"

text \<open>
  Modelled from the spec: the model class belongs to the Keras library, which is not among
  the sources. \<^verbatim>\<open>to_json\<close> describes the architecture and no weights;
  \<^verbatim>\<open>model_from_json\<close> builds new layer objects from such a description, each with
  newly initialised weights; \<^verbatim>\<open>fit\<close> refuses data that does not fit the model's input and
  output shapes and otherwise replaces the weights of the layer objects of the model it is
  called on, and the call is recorded; \<^verbatim>\<open>save\<close> writes the architecture and the current weights of the model's
  layers to a file.
\<close>

definition to_json :: "model \<Rightarrow> json" where
  "to_json m = (inputs m, map snd (chain m))"

definition model_from_json :: "json \<Rightarrow> 'w backend \<Rightarrow> 'w notebook \<Rightarrow> model \<times> 'w notebook" where
  "model_from_json js B st =
     (let ids = [next_lid st ..< next_lid st + length (snd js)]
      in (\<lparr>inputs = fst js, chain = zip ids (snd js)\<rparr>,
          st\<lparr>heap := (\<lambda>i. if i \<in> set ids then initializer B i else heap st i),
             next_lid := next_lid st + length (snd js)\<rparr>))"

definition fits_model :: "model \<Rightarrow> real ndarray \<Rightarrow> real ndarray \<Rightarrow> bool" where
  "fits_model m x y =
     (case shape x of
        [] \<Rightarrow> False
      | n # s \<Rightarrow> s = inputs m \<and> output_shape (map snd (chain m)) (shape x) = Inr (shape y))"

definition set_weights :: "lid list \<Rightarrow> 'w list \<Rightarrow> (lid \<Rightarrow> 'w) \<Rightarrow> (lid \<Rightarrow> 'w)" where
  "set_weights ids ws h = fold (\<lambda>(i, w) g. g(i := w)) (zip ids ws) h"

definition fit ::
  "'w backend \<Rightarrow> compile_args \<Rightarrow> fit_args \<Rightarrow> model \<Rightarrow> real ndarray \<Rightarrow> real ndarray
     \<Rightarrow> 'w notebook \<Rightarrow> error + 'w notebook" where
  "fit B ca fa m x y st =
     (if fits_model m x y
      then Inr (st\<lparr>heap := set_weights (lids m)
                   (params (fit_loop B ca fa x y (map (heap st) (lids m)))) (heap st),
                  calls := calls st @
                    [\<lparr>call_compile = ca, call_fit = fa, call_lids = lids m,
                      call_start = map (heap st) (lids m)\<rparr>]\<rparr>)
      else Inl ValueError)"

definition save :: "model \<Rightarrow> string \<Rightarrow> 'w notebook \<Rightarrow> 'w notebook" where
  "save m name st = st\<lparr>disk := (disk st)(name \<mapsto> (to_json m, map (heap st) (lids m)))\<rparr>"

section \<open>The notebook\<close>

text \<open>
  The architecture cell builds thirty layer objects: \<^verbatim>\<open>conv1 ... pool7\<close> are numbered 0
  to 13, \<^verbatim>\<open>encoded\<close> is 14, \<^verbatim>\<open>conv8 ... up7\<close> and \<^verbatim>\<open>decoded\<close> are 15 to 29. Both
  models of that cell are built over these objects.
\<close>

definition autoencoder0 :: model where
  "autoencoder0 = \<lparr>inputs = input_shape, chain = zip ([0..<14] @ [15..<30]) autoencoder_layers\<rparr>"

definition encoder0 :: model where
  "encoder0 = \<lparr>inputs = input_shape, chain = zip ([0..<14] @ [14]) encoder_layers\<rparr>"

definition cell4 :: "'w backend \<Rightarrow> 'w notebook" where
  "cell4 B = \<lparr>heap = initializer B, next_lid = 30, disk = Map.empty, calls = []\<rparr>"

definition json_autoencoder :: json where
  "json_autoencoder = to_json autoencoder0"

definition json_encoder :: json where
  "json_encoder = to_json encoder0"

definition early_stopping :: EarlyStopping where
  "early_stopping = \<lparr>monitor = ''val_loss'', min_delta = 0, patience = 10, mode = Auto\<rparr>"

definition item :: "string list" where
  "item = [''dress'', ''top'', ''pullover'', ''outerwear'', ''bottom'', ''shoe'', ''bag'']"

definition index :: "'a list \<Rightarrow> nat \<Rightarrow> error + 'a" where
  "index xs i = (if i < length xs then Inr (xs ! i) else Inl IndexError)"

definition pickle_load :: "(string \<rightharpoonup> int ndarray) \<Rightarrow> string \<Rightarrow> error + int ndarray" where
  "pickle_load fs path = (case fs path of None \<Rightarrow> Inl FileNotFoundError | Some a \<Rightarrow> Inr a)"

text \<open>
  The two lines \<^verbatim>\<open>autoencoder = model_from_json(json_autoencoder)\<close> and
  \<^verbatim>\<open>encoder = model_from_json(json_encoder)\<close>, which open the body of the loop and stand
  before the pooled run.
\<close>

definition establish :: "'w backend \<Rightarrow> 'w notebook \<Rightarrow> model \<times> model \<times> 'w notebook" where
  "establish B st =
     (let (autoencoder, st1) = model_from_json json_autoencoder B st;
          (encoder, st2) = model_from_json json_encoder B st1
      in (autoencoder, encoder, st2))"

text \<open>The arguments the loop body passes to \<^verbatim>\<open>compile\<close> and \<^verbatim>\<open>fit\<close>.\<close>

definition category_compile :: compile_args where
  "category_compile = \<lparr>optimizer = ''adadelta'', loss = ''binary_crossentropy''\<rparr>"

definition category_fit :: fit_args where
  "category_fit =
     \<lparr>epochs = 400, batch_size = 100, validation_split = 15 / 100, callbacks = [early_stopping]\<rparr>"

text \<open>
  The body of \<^verbatim>\<open>for i in range(1)\<close>. The closing \<^verbatim>\<open>del\<close> statements drop the three
  variables and change nothing that is observed here.
\<close>

definition train_category ::
  "'w backend \<Rightarrow> (string \<rightharpoonup> int ndarray) \<Rightarrow> nat \<Rightarrow> 'w notebook \<Rightarrow> error + 'w notebook" where
  "train_category B fs i st =
     (case establish B st of (autoencoder, encoder, st2) \<Rightarrow>
      case index item i of Inl e \<Rightarrow> Inl e | Inr name \<Rightarrow>
      case pickle_load fs (''../small_image_vectors/'' @ name @ ''.pkl'') of
        Inl e \<Rightarrow> Inl e
      | Inr raw \<Rightarrow>
          let features = standardize raw
          in case fit B category_compile category_fit autoencoder features features st2 of
               Inl e \<Rightarrow> Inl e
             | Inr st3 \<Rightarrow>
                 Inr (save encoder (name @ ''embedding_model.h5'')
                        (save autoencoder (name @ ''_model.h5'') st3)))"

fun for_each :: "(nat \<Rightarrow> 's \<Rightarrow> error + 's) \<Rightarrow> nat list \<Rightarrow> 's \<Rightarrow> error + 's" where
  "for_each body [] st = Inr st"
| "for_each body (i # is) st =
     (case body i st of Inl e \<Rightarrow> Inl e | Inr st' \<Rightarrow> for_each body is st')"

definition category_loop ::
  "'w backend \<Rightarrow> (string \<rightharpoonup> int ndarray) \<Rightarrow> 'w notebook \<Rightarrow> error + 'w notebook" where
  "category_loop B fs st = for_each (train_category B fs) [0..<1] st"

text \<open>The pooled run: load the seven files, concatenate, standardise, train, save.\<close>

fun load_all :: "(string \<rightharpoonup> int ndarray) \<Rightarrow> string list \<Rightarrow> error + int ndarray list" where
  "load_all fs [] = Inr []"
| "load_all fs (p # ps) =
     (case pickle_load fs p of
        Inl e \<Rightarrow> Inl e
      | Inr a \<Rightarrow> (case load_all fs ps of Inl e \<Rightarrow> Inl e | Inr as \<Rightarrow> Inr (a # as)))"

definition pooled_paths :: "string list" where
  "pooled_paths =
     [''../small_image_vectors/dress.pkl'', ''../small_image_vectors/top.pkl'',
      ''../small_image_vectors/pullover.pkl'', ''../small_image_vectors/outerwear.pkl'',
      ''../small_image_vectors/bottom.pkl'', ''../small_image_vectors/shoe.pkl'',
      ''../small_image_vectors/bag.pkl'']"

definition pooled_compile :: compile_args where
  "pooled_compile = \<lparr>optimizer = ''adadelta'', loss = ''binary_crossentropy''\<rparr>"

definition pooled_fit :: fit_args where
  "pooled_fit =
     \<lparr>epochs = 400, batch_size = 100, validation_split = 15 / 100, callbacks = [early_stopping]\<rparr>"

definition pooled_run ::
  "'w backend \<Rightarrow> (string \<rightharpoonup> int ndarray) \<Rightarrow> 'w notebook \<Rightarrow> error + 'w notebook" where
  "pooled_run B fs st =
     (case load_all fs pooled_paths of Inl e \<Rightarrow> Inl e | Inr arrays \<Rightarrow>
      case concatenate arrays of Inl e \<Rightarrow> Inl e | Inr raw \<Rightarrow>
        let features = standardize raw
        in case establish B st of (autoencoder, encoder, st2) \<Rightarrow>
           case fit B pooled_compile pooled_fit autoencoder features features st2 of
             Inl e \<Rightarrow> Inl e
           | Inr st3 \<Rightarrow>
               Inr (save encoder ''all_embedding_model.h5''
                      (save autoencoder ''all_model.h5'' st3)))"

definition notebook ::
  "'w backend \<Rightarrow> (string \<rightharpoonup> int ndarray) \<Rightarrow> error + 'w notebook" where
  "notebook B fs =
     (case category_loop B fs (cell4 B) of Inl e \<Rightarrow> Inl e | Inr st \<Rightarrow> pooled_run B fs st)"

section \<open>Notions used in the statements\<close>

text \<open>The upsampling factors of a list of layers, and a convolution with its upsampling.\<close>

fun upsampling_factors :: "layer list \<Rightarrow> (nat \<times> nat) list" where
  "upsampling_factors [] = []"
| "upsampling_factors (UpSampling2D f # ls) = f # upsampling_factors ls"
| "upsampling_factors (l # ls) = upsampling_factors ls"

definition conv_up :: "nat \<times> nat \<Rightarrow> layer list" where
  "conv_up p = [Conv2D (fst p) (3, 3) Relu Same, UpSampling2D (snd p, snd p)]"

text \<open>
  The validation loss at the end of pass \<open>e\<close> of a run that starts from the weights
  \<open>ws\<close>. Pass \<open>j\<close> improves when its loss is below the loss of every earlier pass; the
  run has stalled at pass \<open>e\<close> when none of the \<open>p\<close> passes that end with \<open>e\<close> improves.
\<close>

definition loss_after ::
  "'w backend \<Rightarrow> compile_args \<Rightarrow> fit_args \<Rightarrow> real ndarray \<Rightarrow> real ndarray \<Rightarrow> 'w list \<Rightarrow> nat \<Rightarrow> real" where
  "loss_after B ca fa x y ws e =
     val_loss B ca fa x y ((train_epoch B ca fa x y ^^ Suc e) ws)"

definition improves :: "(nat \<Rightarrow> real) \<Rightarrow> nat \<Rightarrow> bool" where
  "improves L j = list_all (\<lambda>i. L j < L i) [0..<j]"

definition stalled :: "(nat \<Rightarrow> real) \<Rightarrow> nat \<Rightarrow> nat \<Rightarrow> bool" where
  "stalled L p e = (p \<le> Suc e \<and> list_all (\<lambda>j. \<not> improves L j) [Suc e - p..<Suc e])"

text \<open>
  The training state after \<open>k\<close> passes when nothing stops the loop, and the state of one
  callback that has watched the losses of \<open>k\<close> passes.
\<close>

fun passes ::
  "'w backend \<Rightarrow> compile_args \<Rightarrow> fit_args \<Rightarrow> real ndarray \<Rightarrow> real ndarray \<Rightarrow> 'w list \<Rightarrow> nat
     \<Rightarrow> 'w training" where
  "passes B ca fa x y ws 0 =
     \<lparr>params = ws, cbs = map on_train_begin (callbacks fa), epochs_run = 0\<rparr>"
| "passes B ca fa x y ws (Suc k) = run_epoch B ca fa x y k (passes B ca fa x y ws k)"

fun watch :: "EarlyStopping \<Rightarrow> (nat \<Rightarrow> real) \<Rightarrow> nat \<Rightarrow> es_state" where
  "watch es L 0 = on_train_begin es"
| "watch es L (Suc k) = on_epoch_end es k (L k) (watch es L k)"

text \<open>
  What a \<^verbatim>\<open>fit\<close> call was made with: its hyperparameters, and the model and weights
  it started from.
\<close>

definition call_hyper :: "'w fit_call \<Rightarrow> compile_args \<times> fit_args" where
  "call_hyper c = (call_compile c, call_fit c)"


text \<open>
  The fixed hyperparameters: the Adadelta optimizer, binary cross-entropy loss, at most 400
  passes, batches of 100 samples, a validation split of 15 percent, and one callback that
  stops the run early with patience 10 on the validation loss.
\<close>

definition fixed_arguments :: "compile_args \<times> fit_args" where
  "fixed_arguments =
     (\<lparr>optimizer = ''adadelta'', loss = ''binary_crossentropy''\<rparr>,
      \<lparr>epochs = 400, batch_size = 100, validation_split = 15 / 100,
        callbacks = [\<lparr>monitor = ''val_loss'', min_delta = 0, patience = 10, mode = Auto\<rparr>]\<rparr>)"

text \<open>
  Sample inputs: a batch of \<open>n\<close> images with every pixel \<open>v\<close>, a directory in which each
  of the seven files holds such a batch, and a numeric library that initialises the
  weights of a layer object with the number of the object, adds \<open>d\<close> to every weight in
  each pass and reports the validation loss \<open>l\<close> after every pass.
\<close>

definition sample_batch :: "nat \<Rightarrow> int \<Rightarrow> int ndarray" where
  "sample_batch n v = \<lparr>shape = [n, 3, 64, 64], data = replicate (n * 12288) v\<rparr>"

definition sample_files :: "nat \<Rightarrow> int \<Rightarrow> string \<rightharpoonup> int ndarray" where
  "sample_files n v = (\<lambda>p. if p \<in> set pooled_paths then Some (sample_batch n v) else None)"

definition sample_backend :: "int \<Rightarrow> real \<Rightarrow> int backend" where
  "sample_backend d l =
     \<lparr>initializer = (\<lambda>i. int i),
      train_epoch = (\<lambda>ca fa x y ws. map (\<lambda>w. w + d) ws),
      val_loss = (\<lambda>ca fa x y ws. l)\<rparr>"

section \<open>Shapes of the two networks\<close>

lemma same_pool_halves:
  "compute_output_shape (MaxPooling2D (2, 2) Same) [n, c, h, w] =
     Inr [n, c, (h + 1) div 2, (w + 1) div 2]"
  by (simp add: conv_output_length_def spatial_def)

lemma same_conv_keeps:
  "compute_output_shape (Conv2D f (kh, kw) a Same) [n, c, h, w] = Inr [n, f, h, w]"
  by (simp add: conv_output_length_def spatial_def)

lemma upsampling_scales:
  "compute_output_shape (UpSampling2D (a, b)) [n, c, h, w] = Inr [n, c, a * h, b * w]"
  by simp

lemma flatten_shape: "compute_output_shape Flatten [n, c, h, w] = Inr [n, c * (h * w)]"
  by simp

lemma output_shape_append:
  "output_shape (ks @ ls) s =
     (case output_shape ks s of Inl e \<Rightarrow> Inl e | Inr s' \<Rightarrow> output_shape ls s')"
  by (induction ks arbitrary: s) (auto split: sum.splits)

lemmas layer_shapes = same_pool_halves same_conv_keeps upsampling_scales flatten_shape

lemma encoder_stages_shape: "output_shape encoder_stages [n, 3, 64, 64] = Inr [n, 16, 1, 1]"
  by (simp add: encoder_stages_def layer_shapes del: compute_output_shape.simps)

lemma decoder_stages_shape: "output_shape decoder_stages [n, 16, 1, 1] = Inr [n, 3, 64, 64]"
  by (simp add: decoder_stages_def layer_shapes del: compute_output_shape.simps)

lemma autoencoder_shape: "output_shape autoencoder_layers [n, 3, 64, 64] = Inr [n, 3, 64, 64]"
  by (simp add: autoencoder_layers_def output_shape_append
        encoder_stages_shape decoder_stages_shape del: One_nat_def)

text \<open>
  C4. For every batch size \<open>N\<close>, the full autoencoder maps a batch of shape
  \<open>(N, 3, 64, 64)\<close> to an output of exactly the same shape. Shapes do not depend on the
  entries, so the range of the values plays no part.
\<close>

theorem autoencoder_output_shape:
  "output_shape autoencoder_layers (n # input_shape) = Inr (n # input_shape)"
  by (simp add: input_shape_def autoencoder_shape)

text \<open>
  C10. For every batch size \<open>N\<close>, in particular for one image, the encoder's flattened
  output has 16 entries per image: the first six poolings take the 64 by 64 grid down to
  1 by 1, the seventh convolution and the seventh pooling leave a 1 by 1 grid as it is.
\<close>

theorem encoder_output_shape:
  "output_shape encoder_layers (n # input_shape) = Inr [n, 16]
   \<and> output_shape (take 12 encoder_stages) (n # input_shape) = Inr [n, 16, 1, 1]
   \<and> compute_output_shape (encoder_stages ! 12) [n, 16, 1, 1] = Inr [n, 16, 1, 1]
   \<and> compute_output_shape (encoder_stages ! 13) [n, 16, 1, 1] = Inr [n, 16, 1, 1]"
  by (simp add: encoder_layers_def input_shape_def output_shape_append
        encoder_stages_shape del: One_nat_def,
      simp add: encoder_stages_def layer_shapes del: compute_output_shape.simps)

text \<open>
  C3, as stated: every upsampling step of the decoder has factor 2. It fails: the sixth
  step, \<^verbatim>\<open>up6\<close>, has factor 1.
\<close>

theorem decoder_not_all_doubling:
  "\<not> list_all (\<lambda>f. f = (2, 2)) (upsampling_factors decoder_stages)
   \<and> decoder_stages ! 11 = UpSampling2D (1, 1)
   \<and> compute_output_shape (decoder_stages ! 11) [1, 248, 32, 32] = Inr [1, 248, 32, 32]"
  by (simp add: decoder_stages_def)

text \<open>
  C3, amended. The decoder is seven pairs of a 3 by 3 convolution and an upsampling, at
  depths 16, 16, 32, 64, 124, 248, 496, followed by a 5 by 5 sigmoid convolution to 3
  channels. The upsampling factors are 2, 2, 2, 2, 2, 1, 2: every step doubles both
  spatial dimensions except the sixth, which leaves them as they are, and so the decoder
  takes the 1 by 1 bottleneck back to 64 by 64.
\<close>

theorem decoder_structure:
  "decoder_stages =
     concat (map conv_up [(16, 2), (16, 2), (32, 2), (64, 2), (124, 2), (248, 1), (496, 2)])
       @ [Conv2D 3 (5, 5) Sigmoid Same]
   \<and> upsampling_factors decoder_stages = [(2, 2), (2, 2), (2, 2), (2, 2), (2, 2), (1, 1), (2, 2)]
   \<and> compute_output_shape (UpSampling2D (2, 2)) [n, c, h, w] = Inr [n, c, 2 * h, 2 * w]
   \<and> compute_output_shape (UpSampling2D (1, 1)) [n, c, h, w] = Inr [n, c, h, w]
   \<and> output_shape decoder_stages [n, 16, 1, 1] = Inr [n, 3, 64, 64]"
  by (simp add: decoder_stages_shape del: One_nat_def, simp add: decoder_stages_def conv_up_def)

section \<open>Normalisation and concatenation\<close>

text \<open>
  C6. For a raw array whose entries are integers from 0 to 255, standardising divides
  every entry by 255, keeps the shape, and gives entries from 0 to 1.
\<close>

theorem standardize_range:
  assumes "\<forall>v \<in> set (data raw). 0 \<le> v \<and> v \<le> 255"
  shows "shape (standardize raw) = shape raw
         \<and> data (standardize raw) = map (\<lambda>v. real_of_int v / 255) (data raw)
         \<and> (\<forall>r \<in> set (data (standardize raw)). 0 \<le> r \<and> r \<le> 1)"
  using assms by (auto simp: standardize_def)

text \<open>The three pixel values 0, 128 and 255 become 0, 128/255 and 1.\<close>

theorem standardize_range_witness:
  "data (standardize \<lparr>shape = [3], data = [0, 128, 255]\<rparr>) = [0, 128 / 255, 1]
   \<and> list_all (\<lambda>r. 0 \<le> r \<and> r \<le> 1) (data (standardize \<lparr>shape = [3], data = [0, 128, 255]\<rparr>))"
  using standardize_range [of "\<lparr>shape = [3], data = [0, 128, 255]\<rparr>"] by simp

text \<open>
  C7. Seven batches of per-sample shape \<open>(3, 64, 64)\<close> concatenate along the sample
  axis into one batch whose sample count is the sum of the seven counts and whose
  per-sample shape is still \<open>(3, 64, 64)\<close>; its entries are those of the seven batches
  in order.
\<close>

theorem concatenate_seven:
  assumes "shape a1 = [n1, 3, 64, 64]" "shape a2 = [n2, 3, 64, 64]" "shape a3 = [n3, 3, 64, 64]"
    "shape a4 = [n4, 3, 64, 64]" "shape a5 = [n5, 3, 64, 64]" "shape a6 = [n6, 3, 64, 64]"
    "shape a7 = [n7, 3, 64, 64]"
  shows "concatenate [a1, a2, a3, a4, a5, a6, a7] =
           Inr \<lparr>shape = [n1 + n2 + n3 + n4 + n5 + n6 + n7, 3, 64, 64],
                data = data a1 @ data a2 @ data a3 @ data a4 @ data a5 @ data a6 @ data a7\<rparr>"
  using assms by (simp add: same_tail_def first_dim_def)

lemma shape_sample_batch: "shape (sample_batch n v) = [n, 3, 64, 64]"
  by (simp add: sample_batch_def)

text \<open>Batches of 1, 2, 0, 4, 5, 6 and 7 images give a batch of 25 images.\<close>

theorem concatenate_seven_witness:
  "\<exists>r. concatenate [sample_batch 1 0, sample_batch 2 0, sample_batch 0 0, sample_batch 4 0,
          sample_batch 5 0, sample_batch 6 0, sample_batch 7 0] = Inr r
     \<and> shape r = [25, 3, 64, 64] \<and> length (data r) = 25 * 12288"
  using concatenate_seven [of "sample_batch 1 0" 1 "sample_batch 2 0" 2 "sample_batch 0 0" 0
      "sample_batch 4 0" 4 "sample_batch 5 0" 5 "sample_batch 6 0" 6 "sample_batch 7 0" 7]
  by (simp add: sample_batch_def)

section \<open>The epoch loop and early stopping\<close>

lemma epochs_run_passes: "epochs_run (passes B ca fa x y ws k) = k"
  by (cases k) (simp_all add: run_epoch_def Let_def)

lemma params_passes: "params (passes B ca fa x y ws k) = (train_epoch B ca fa x y ^^ k) ws"
  by (induction k) (simp_all add: run_epoch_def Let_def)

lemma cbs_passes:
  "callbacks fa = [es] \<Longrightarrow>
     cbs (passes B ca fa x y ws k) = [watch es (loss_after B ca fa x y ws) k]"
  by (induction k) (simp_all add: run_epoch_def Let_def loss_after_def params_passes)

lemma epoch_loop_passes:
  "\<exists>r. epoch_loop B ca fa x y k e (passes B ca fa x y ws e) = passes B ca fa x y ws r
       \<and> e \<le> r \<and> r \<le> e + k \<and> (0 < k \<longrightarrow> e < r)
       \<and> (\<forall>j. e < j \<and> j < r \<longrightarrow> \<not> stop_training (passes B ca fa x y ws j))
       \<and> (r < e + k \<longrightarrow> stop_training (passes B ca fa x y ws r))"
proof (induction k arbitrary: e)
  case 0
  show ?case by (rule exI [of _ e]) auto
next
  case (Suc k)
  show ?case
  proof (cases "stop_training (passes B ca fa x y ws (Suc e))")
    case True
    then show ?thesis by (intro exI [of _ "Suc e"]) (auto simp: Let_def)
  next
    case False
    from Suc.IH [of "Suc e"] obtain r where r:
      "epoch_loop B ca fa x y k (Suc e) (passes B ca fa x y ws (Suc e)) = passes B ca fa x y ws r"
      "Suc e \<le> r" "r \<le> Suc e + k"
      "\<forall>j. Suc e < j \<and> j < r \<longrightarrow> \<not> stop_training (passes B ca fa x y ws j)"
      "r < Suc e + k \<longrightarrow> stop_training (passes B ca fa x y ws r)"
      by blast
    have "\<forall>j. e < j \<and> j < r \<longrightarrow> \<not> stop_training (passes B ca fa x y ws j)"
    proof (intro allI impI)
      fix j assume "e < j \<and> j < r"
      then have "j = Suc e \<or> (Suc e < j \<and> j < r)" by arith
      then show "\<not> stop_training (passes B ca fa x y ws j)" using False r(4) by blast
    qed
    with r False show ?thesis by (intro exI [of _ r]) (simp add: Let_def)
  qed
qed

lemma fit_loop_passes:
  "\<exists>r. fit_loop B ca fa x y ws = passes B ca fa x y ws r
       \<and> r \<le> epochs fa \<and> (0 < epochs fa \<longrightarrow> 0 < r)
       \<and> (\<forall>j. 0 < j \<and> j < r \<longrightarrow> \<not> stop_training (passes B ca fa x y ws j))
       \<and> (r < epochs fa \<longrightarrow> stop_training (passes B ca fa x y ws r))"
  using epoch_loop_passes [of B ca fa x y "epochs fa" 0 ws] by (simp add: fit_loop_def)

lemma improves_iff: "improves L j \<longleftrightarrow> (\<forall>i<j. L j < L i)"
  by (auto simp: improves_def list_all_iff)

lemma stalled_iff:
  "stalled L p e \<longleftrightarrow> p \<le> Suc e \<and> (\<forall>j. Suc e - p \<le> j \<and> j \<le> e \<longrightarrow> \<not> improves L j)"
  by (auto simp: stalled_def list_all_iff)

lemma best_watch:
  assumes "monitor_less es" "min_delta es = 0"
  shows "improved es (L k) (best (watch es L k)) \<longleftrightarrow> improves L k"
proof -
  have inv: "(k = 0 \<longrightarrow> best (watch es L k) = None)
     \<and> (0 < k \<longrightarrow> (\<exists>b. best (watch es L k) = Some b \<and> (\<exists>i<k. L i = b) \<and> (\<forall>i<k. b \<le> L i)))" for k
  proof (induction k)
    case 0
    show ?case by (simp add: on_train_begin_def)
  next
    case (Suc k)
    show ?case
    proof (cases "k = 0")
      case True
      then show ?thesis by (simp add: on_epoch_end_def on_train_begin_def improved_def)
    next
      case False
      with Suc obtain b where b: "best (watch es L k) = Some b" "\<exists>i<k. L i = b" "\<forall>i<k. b \<le> L i"
        by auto
      show ?thesis
      proof (cases "L k < b")
        case True
        then have "best (watch es L (Suc k)) = Some (L k)"
          using b(1) assms by (simp add: on_epoch_end_def improved_def)
        moreover have "\<forall>i<Suc k. L k \<le> L i"
          using b(3) True by (auto simp: less_Suc_eq intro: less_imp_le order.trans)
        ultimately show ?thesis by auto
      next
        case nless: False
        then have "best (watch es L (Suc k)) = Some b"
          using b(1) assms by (simp add: on_epoch_end_def improved_def)
        moreover have "\<forall>i<Suc k. b \<le> L i"
          using b(3) nless by (auto simp: less_Suc_eq)
        moreover have "\<exists>i<Suc k. L i = b" using b(2) less_Suc_eq by blast
        ultimately show ?thesis by auto
      qed
    qed
  qed
  show ?thesis
  proof (cases "k = 0")
    case True
    then show ?thesis using inv [of 0] by (simp add: improved_def improves_iff)
  next
    case False
    with inv [of k] obtain b where b: "best (watch es L k) = Some b" "\<exists>i<k. L i = b" "\<forall>i<k. b \<le> L i"
      by auto
    have "L k < b \<longleftrightarrow> (\<forall>i<k. L k < L i)"
      using b(2,3) by (meson less_le_trans)
    then show ?thesis using b(1) assms by (simp add: improved_def improves_iff)
  qed
qed

lemma wait_watch_Suc:
  assumes "monitor_less es" "min_delta es = 0"
  shows "wait (watch es L (Suc k)) = (if improves L k then 0 else Suc (wait (watch es L k)))"
  using best_watch [OF assms, of L k] by (simp add: on_epoch_end_def)

lemma stop_watch_Suc:
  assumes "monitor_less es" "min_delta es = 0"
  shows "stop_asked (watch es L (Suc k)) \<longleftrightarrow>
           stop_asked (watch es L k) \<or> (\<not> improves L k \<and> patience es \<le> Suc (wait (watch es L k)))"
  using best_watch [OF assms, of L k] by (simp add: on_epoch_end_def)

lemma wait_watch_ge:
  assumes "monitor_less es" "min_delta es = 0"
  shows "q \<le> wait (watch es L k) \<longleftrightarrow> q \<le> k \<and> (\<forall>j. k - q \<le> j \<and> j < k \<longrightarrow> \<not> improves L j)"
proof (induction k arbitrary: q)
  case 0
  show ?case by (simp add: on_train_begin_def)
next
  case step: (Suc k)
  show ?case
  proof (cases q)
    case 0
    then show ?thesis by auto
  next
    case q': (Suc q')
    have w: "wait (watch es L (Suc k)) = (if improves L k then 0 else Suc (wait (watch es L k)))"
      by (rule wait_watch_Suc [OF assms])
    have "Suc q' \<le> wait (watch es L (Suc k)) \<longleftrightarrow> \<not> improves L k \<and> q' \<le> wait (watch es L k)"
      unfolding w by simp
    also have "\<dots> \<longleftrightarrow> \<not> improves L k \<and> q' \<le> k \<and> (\<forall>j. k - q' \<le> j \<and> j < k \<longrightarrow> \<not> improves L j)"
      using step.IH [of q'] by simp
    also have "\<dots> \<longleftrightarrow> Suc q' \<le> Suc k \<and> (\<forall>j. Suc k - Suc q' \<le> j \<and> j < Suc k \<longrightarrow> \<not> improves L j)"
      by (auto simp: less_Suc_eq)
    finally show ?thesis unfolding q' .
  qed
qed

lemma stalled_watch:
  assumes "monitor_less es" "min_delta es = 0" "0 < patience es"
  shows "stalled L (patience es) k \<longleftrightarrow>
           \<not> improves L k \<and> patience es \<le> Suc (wait (watch es L k))"
proof -
  have "patience es \<le> wait (watch es L (Suc k)) \<longleftrightarrow> stalled L (patience es) k"
    unfolding wait_watch_ge [OF assms(1,2)] stalled_iff by (auto simp: less_Suc_eq_le)
  then have "patience es \<le> (if improves L k then 0 else Suc (wait (watch es L k)))
               \<longleftrightarrow> stalled L (patience es) k"
    unfolding wait_watch_Suc [OF assms(1,2)] .
  then show ?thesis using assms(3) by (auto split: if_splits)
qed

lemma no_stop_at_start: "\<not> stop_asked (watch es L 0)"
  by (simp add: on_train_begin_def)

lemma early_stopping_halts:
  fixes B :: "'w backend"
  assumes cb: "callbacks fa = [es]" and ml: "monitor_less es" and md: "min_delta es = 0"
    and pt: "0 < patience es" and ep: "0 < epochs fa"
  shows "0 < epochs_run (fit_loop B ca fa x y ws)"
    and "epochs_run (fit_loop B ca fa x y ws) \<le> epochs fa"
    and "e < epochs fa \<Longrightarrow> stalled (loss_after B ca fa x y ws) (patience es) e
           \<Longrightarrow> epochs_run (fit_loop B ca fa x y ws) \<le> Suc e"
    and "epochs_run (fit_loop B ca fa x y ws) < epochs fa
           \<Longrightarrow> stalled (loss_after B ca fa x y ws) (patience es)
                 (epochs_run (fit_loop B ca fa x y ws) - 1)"
    and "params (fit_loop B ca fa x y ws) =
           (train_epoch B ca fa x y ^^ epochs_run (fit_loop B ca fa x y ws)) ws"
proof -
  let ?r = "epochs_run (fit_loop B ca fa x y ws)"
  let ?L = "loss_after B ca fa x y ws"
  from fit_loop_passes [of B ca fa x y ws] obtain k where k:
    "fit_loop B ca fa x y ws = passes B ca fa x y ws k" "k \<le> epochs fa" "0 < k"
    "\<forall>j. 0 < j \<and> j < k \<longrightarrow> \<not> stop_training (passes B ca fa x y ws j)"
    "k < epochs fa \<longrightarrow> stop_training (passes B ca fa x y ws k)"
    using ep by blast
  have rk: "?r = k" by (simp add: k(1) epochs_run_passes)
  have st: "stop_training (passes B ca fa x y ws j) \<longleftrightarrow> stop_asked (watch es ?L j)" for j
    by (simp add: stop_training_def cbs_passes [OF cb])
  show "0 < ?r" "?r \<le> epochs fa" using k rk by simp_all
  show "params (fit_loop B ca fa x y ws) = (train_epoch B ca fa x y ^^ ?r) ws"
    unfolding rk by (simp add: k(1) params_passes)
  show "?r \<le> Suc e" if "e < epochs fa" "stalled ?L (patience es) e"
  proof (rule ccontr)
    assume "\<not> ?r \<le> Suc e"
    then have "0 < Suc e \<and> Suc e < k" using rk by simp
    then have "\<not> stop_asked (watch es ?L (Suc e))" using k(4) st by blast
    moreover have "stop_asked (watch es ?L (Suc e))"
      using that(2) stalled_watch [OF ml md pt, of ?L e] stop_watch_Suc [OF ml md, of ?L e]
      by blast
    ultimately show False by contradiction
  qed
  show "stalled ?L (patience es) (?r - 1)" if "?r < epochs fa"
  proof -
    obtain k' where k': "k = Suc k'" using k(3) by (cases k) auto
    have "stop_asked (watch es ?L k)" using that k(5) rk st by metis
    then have "stop_asked (watch es ?L (Suc k'))" unfolding k' .
    moreover have "\<not> stop_asked (watch es ?L k')"
    proof (cases "k' = 0")
      case True
      then show ?thesis using no_stop_at_start [of es ?L] by simp
    next
      case False
      then have "0 < k' \<and> k' < k" using k' by simp
      then show ?thesis using k(4) st by blast
    qed
    ultimately have "stalled ?L (patience es) k'"
      using stalled_watch [OF ml md pt, of ?L k'] stop_watch_Suc [OF ml md, of ?L k'] by blast
    then show ?thesis unfolding rk k' by simp
  qed
qed

lemma loss_after_sample: "loss_after (sample_backend d l) ca fa x y ws = (\<lambda>e. l)"
  by (rule ext) (simp add: loss_after_def sample_backend_def)

lemma improves_const: "improves (\<lambda>e. l) j \<longleftrightarrow> j = 0"
  by (auto simp: improves_iff)

lemma stalled_const: "stalled (\<lambda>e. l) 10 e \<longleftrightarrow> 10 \<le> e"
proof -
  show ?thesis
    unfolding stalled_iff improves_const
  proof
    assume a: "10 \<le> Suc e \<and> (\<forall>j. Suc e - 10 \<le> j \<and> j \<le> e \<longrightarrow> j \<noteq> 0)"
    then have "Suc e - 10 \<noteq> 0" by auto
    then show "10 \<le> e" by arith
  next
    assume "10 \<le> e"
    then show "10 \<le> Suc e \<and> (\<forall>j. Suc e - 10 \<le> j \<and> j \<le> e \<longrightarrow> j \<noteq> 0)" by auto
  qed
qed

lemma early_stopping_facts:
  "monitor_less early_stopping" "min_delta early_stopping = 0" "patience early_stopping = 10"
  "0 < patience early_stopping"
  by (simp_all add: early_stopping_def monitor_less_def)

lemma funpow_shift: "((\<lambda>ws. map (\<lambda>w. w + d) ws) ^^ k) ws = map (\<lambda>w. w + int k * d) ws"
  by (induction k) (simp_all add: algebra_simps)

lemma sample_fit:
  "epochs_run (fit_loop (sample_backend d l) ca category_fit x y ws) = 11"
  "params (fit_loop (sample_backend d l) ca category_fit x y ws) = map (\<lambda>w. w + 11 * d) ws"
proof -
  let ?r = "epochs_run (fit_loop (sample_backend d l) ca category_fit x y ws)"
  have cb: "callbacks category_fit = [early_stopping]" and ep: "epochs category_fit = 400"
    and ep0: "0 < epochs category_fit"
    by (simp_all add: category_fit_def)
  note h = early_stopping_halts [where B = "sample_backend d l" and ca = ca and x = x and y = y
      and ws = ws, OF cb early_stopping_facts(1,2,4) ep0, unfolded early_stopping_facts(3) ep
      loss_after_sample stalled_const]
  have "?r \<le> 11" using h(3) [of 10] by simp
  moreover have "?r < 400 \<Longrightarrow> 10 \<le> ?r - 1" by (rule h(4))
  then have "11 \<le> ?r" by arith
  ultimately show r: "?r = 11" by simp
  show "params (fit_loop (sample_backend d l) ca category_fit x y ws) = map (\<lambda>w. w + 11 * d) ws"
    using h(5) unfolding r by (simp add: sample_backend_def funpow_shift del: funpow.simps)
qed

text \<open>
  C8. Every training run halts: a \<^verbatim>\<open>fit\<close> call of the loop body or of the pooled run
  makes at least one and at most 400 passes; if the validation loss has stalled for 10
  passes in a row by the end of some pass, the run has halted by then; and a run that
  halts before pass 400 halts at the end of a pass at which the loss has stalled for 10
  passes in a row.
\<close>

theorem training_halts:
  fixes B :: "'w backend"
  assumes "fa = category_fit \<or> fa = pooled_fit"
  shows "0 < epochs_run (fit_loop B ca fa x y ws)
     \<and> epochs_run (fit_loop B ca fa x y ws) \<le> 400
     \<and> (\<forall>e<400. stalled (loss_after B ca fa x y ws) 10 e
           \<longrightarrow> epochs_run (fit_loop B ca fa x y ws) \<le> Suc e)
     \<and> (epochs_run (fit_loop B ca fa x y ws) < 400
           \<longrightarrow> stalled (loss_after B ca fa x y ws) 10 (epochs_run (fit_loop B ca fa x y ws) - 1))"
proof -
  from assms have cb: "callbacks fa = [early_stopping]" and ep: "epochs fa = 400"
    by (auto simp: category_fit_def pooled_fit_def)
  from ep have ep0: "0 < epochs fa" by simp
  note h = early_stopping_halts [where B = B and ca = ca and x = x and y = y
      and ws = ws, OF cb early_stopping_facts(1,2,4) ep0, unfolded early_stopping_facts(3) ep]
  show ?thesis using h(1-4) by blast
qed

text \<open>
  With a constant validation loss the first pass improves on nothing seen before, passes
  2 to 11 do not improve, and the run halts after 11 passes.
\<close>

theorem training_halts_witness:
  "(category_fit = category_fit \<or> category_fit = pooled_fit)
   \<and> stalled (loss_after (sample_backend 1 1) category_compile category_fit
        (standardize (sample_batch 10 128)) (standardize (sample_batch 10 128)) [0]) 10 10
   \<and> epochs_run (fit_loop (sample_backend 1 1) category_compile category_fit
        (standardize (sample_batch 10 128)) (standardize (sample_batch 10 128)) [0]) = 11"
proof -
  let ?x = "standardize (sample_batch 10 128)"
  let ?r = "epochs_run (fit_loop (sample_backend 1 1) category_compile category_fit ?x ?x [0])"
  have fa: "category_fit = category_fit \<or> category_fit = pooled_fit" by simp
  note h = training_halts [of category_fit "sample_backend 1 1" category_compile ?x ?x "[0]",
      OF fa, unfolded loss_after_sample stalled_const]
  from h have a: "\<forall>e<400. 10 \<le> e \<longrightarrow> ?r \<le> Suc e" and b: "?r < 400 \<longrightarrow> 10 \<le> ?r - 1"
    by blast+
  have "?r \<le> 11" using a [rule_format, of 10] by simp
  moreover have "11 \<le> ?r" using b by arith
  ultimately have "?r = 11" by simp
  then show ?thesis by (simp add: loss_after_sample stalled_const)
qed

section \<open>Model objects, training and files\<close>

lemma length_autoencoder_layers: "length autoencoder_layers = 29"
  by (simp add: autoencoder_layers_def encoder_stages_def decoder_stages_def)

lemma length_encoder_layers: "length encoder_layers = 15"
  by (simp add: encoder_layers_def encoder_stages_def)

lemma json_autoencoder_eq: "json_autoencoder = (input_shape, autoencoder_layers)"
  by (simp add: json_autoencoder_def to_json_def autoencoder0_def length_autoencoder_layers)

lemma json_encoder_eq: "json_encoder = (input_shape, encoder_layers)"
  by (simp add: json_encoder_def to_json_def encoder0_def length_encoder_layers)

lemma model_from_json_props:
  assumes "model_from_json js B st = (m, st')"
  shows "to_json m = js"
    and "lids m = [next_lid st ..< next_lid st + length (snd js)]"
    and "next_lid st' = next_lid st + length (snd js)"
    and "disk st' = disk st"
    and "heap st' = (\<lambda>i. if next_lid st \<le> i \<and> i < next_lid st + length (snd js)
                         then initializer B i else heap st i)"
    and "calls st' = calls st"
  using assms by (auto simp: model_from_json_def Let_def lids_def to_json_def)

lemma establish_props:
  assumes "establish B st = (autoencoder, encoder, st2)"
  shows "to_json autoencoder = json_autoencoder" and "to_json encoder = json_encoder"
    and "lids autoencoder = [next_lid st ..< next_lid st + 29]"
    and "lids encoder = [next_lid st + 29 ..< next_lid st + 44]"
    and "next_lid st2 = next_lid st + 44"
    and "disk st2 = disk st"
    and "heap st2 = (\<lambda>i. if next_lid st \<le> i \<and> i < next_lid st + 44
                         then initializer B i else heap st i)"
    and "calls st2 = calls st"
proof -
  obtain a s1 where a: "model_from_json json_autoencoder B st = (a, s1)" by fastforce
  obtain e s2 where e: "model_from_json json_encoder B s1 = (e, s2)" by fastforce
  from assms a e have eq: "autoencoder = a" "encoder = e" "st2 = s2"
    by (simp_all add: establish_def)
  note pa = model_from_json_props [OF a] and pe = model_from_json_props [OF e]
  show "to_json autoencoder = json_autoencoder" "to_json encoder = json_encoder"
    using pa(1) pe(1) eq by simp_all
  show "lids autoencoder = [next_lid st ..< next_lid st + 29]"
    using pa(2) eq by (simp add: json_autoencoder_eq length_autoencoder_layers)
  show "lids encoder = [next_lid st + 29 ..< next_lid st + 44]"
    using pe(2) pa(3) eq
    by (simp add: json_autoencoder_eq json_encoder_eq length_autoencoder_layers
          length_encoder_layers add.assoc)
  show "next_lid st2 = next_lid st + 44"
    using pe(3) pa(3) eq
    by (simp add: json_autoencoder_eq json_encoder_eq length_autoencoder_layers
          length_encoder_layers)
  show "disk st2 = disk st" using pe(4) pa(4) eq by simp
  show "heap st2 = (\<lambda>i. if next_lid st \<le> i \<and> i < next_lid st + 44
                         then initializer B i else heap st i)"
    unfolding eq pe(5) pa(5) pa(3)
    by (auto simp: json_autoencoder_eq json_encoder_eq length_autoencoder_layers
          length_encoder_layers fun_eq_iff)
  show "calls st2 = calls st" using pe(6) pa(6) eq by simp
qed

lemma set_weights_other: "i \<notin> set ids \<Longrightarrow> set_weights ids ws h i = h i"
proof -
  have "i \<notin> fst ` set zs \<Longrightarrow> fold (\<lambda>(j, w) g. g(j := w)) zs h i = h i" for zs
    by (induction zs arbitrary: h) (auto split: prod.splits)
  moreover assume "i \<notin> set ids"
  then have "i \<notin> fst ` set (zip ids ws)" by (auto dest: set_zip_leftD)
  ultimately show ?thesis by (simp add: set_weights_def)
qed

lemma set_weights_map:
  "distinct ids \<Longrightarrow> length ws = length ids \<Longrightarrow> map (set_weights ids ws h) ids = ws"
proof (induction ids arbitrary: ws h)
  case Nil
  then show ?case by simp
next
  case (Cons i ids)
  then obtain w ws' where ws: "ws = w # ws'" by (cases ws) auto
  have step: "set_weights (i # ids) (w # ws') h = set_weights ids ws' (h(i := w))"
    by (simp add: set_weights_def)
  have "set_weights ids ws' (h(i := w)) i = w"
    using Cons.prems(1) by (simp add: set_weights_other)
  moreover have "map (set_weights ids ws' (h(i := w))) ids = ws'"
    using Cons ws by simp
  ultimately show ?case by (simp add: ws step)
qed

lemma fit_props:
  assumes "fit B ca fa m x y st = Inr st'"
  shows "fits_model m x y" and "disk st' = disk st" and "next_lid st' = next_lid st"
    and "heap st' = set_weights (lids m)
           (params (fit_loop B ca fa x y (map (heap st) (lids m)))) (heap st)"
    and "calls st' = calls st @
           [\<lparr>call_compile = ca, call_fit = fa, call_lids = lids m,
             call_start = map (heap st) (lids m)\<rparr>]"
  using assms by (auto simp: fit_def split: if_splits)

lemma category_loop_eq: "category_loop B fs st = train_category B fs 0 st"
  by (simp add: category_loop_def split: sum.splits)

lemma train_category_props:
  assumes "train_category B fs i st = Inr st'"
  shows "i < length item"
    and "next_lid st' = next_lid st + 44"
    and "dom (disk st') =
           insert (item ! i @ ''embedding_model.h5'') (insert (item ! i @ ''_model.h5'') (dom (disk st)))"
    and "disk st' (item ! i @ ''embedding_model.h5'') =
           Some (json_encoder, map (initializer B) [next_lid st + 29 ..< next_lid st + 44])"
    and "calls st' = calls st @
           [\<lparr>call_compile = category_compile, call_fit = category_fit,
             call_lids = [next_lid st ..< next_lid st + 29],
             call_start = map (initializer B) [next_lid st ..< next_lid st + 29]\<rparr>]"
proof -
  obtain a e s2 where est: "establish B st = (a, e, s2)" by (metis prod_cases3)
  note p = establish_props [OF est]
  from assms est show i: "i < length item"
    by (auto simp: train_category_def index_def split: if_splits)
  from assms est i obtain raw s3 where
    raw: "fs (''../small_image_vectors/'' @ item ! i @ ''.pkl'') = Some raw" and
    fit: "fit B category_compile category_fit a (standardize raw) (standardize raw) s2 = Inr s3" and
    st': "st' = save e (item ! i @ ''embedding_model.h5'') (save a (item ! i @ ''_model.h5'') s3)"
    by (auto simp: train_category_def index_def pickle_load_def Let_def
          split: option.splits sum.splits)
  note f = fit_props [OF fit]
  show "next_lid st' = next_lid st + 44" by (simp add: st' save_def f(3) p(5))
  show "dom (disk st') =
           insert (item ! i @ ''embedding_model.h5'') (insert (item ! i @ ''_model.h5'') (dom (disk st)))"
    by (simp add: st' save_def f(2) p(6))
  have "\<forall>j \<in> set (lids e). heap s3 j = initializer B j"
    by (auto simp: f(4) p(3,4,7) set_weights_other)
  then have "map (heap s3) (lids e) = map (initializer B) (lids e)" by simp
  then show "disk st' (item ! i @ ''embedding_model.h5'') =
           Some (json_encoder, map (initializer B) [next_lid st + 29 ..< next_lid st + 44])"
    by (simp add: st' save_def p(2,4))
  show "calls st' = calls st @
           [\<lparr>call_compile = category_compile, call_fit = category_fit,
             call_lids = [next_lid st ..< next_lid st + 29],
             call_start = map (initializer B) [next_lid st ..< next_lid st + 29]\<rparr>]"
    by (simp add: st' save_def f(5) p(3,7,8))
qed

lemma to_json_D: "to_json m = (s, ls) \<Longrightarrow> inputs m = s \<and> map snd (chain m) = ls"
  by (simp add: to_json_def)

lemma fit_ok:
  assumes "to_json m = json_autoencoder" "shape x = [n, 3, 64, 64]"
  shows "\<exists>st'. fit B ca fa m x x st = Inr st'"
proof -
  from assms(1) have "inputs m = input_shape" "map snd (chain m) = autoencoder_layers"
    using to_json_D [of m input_shape autoencoder_layers] by (simp_all add: json_autoencoder_eq)
  then have "fits_model m x x"
    by (simp add: fits_model_def assms(2) input_shape_def autoencoder_shape)
  then show ?thesis by (simp add: fit_def)
qed

lemma shape_standardize: "shape (standardize a) = shape a"
  by (simp add: standardize_def)

lemma train_category_ok:
  assumes "i < length item"
    and "fs (''../small_image_vectors/'' @ item ! i @ ''.pkl'') = Some raw"
    and "shape raw = [n, 3, 64, 64]"
  shows "\<exists>st'. train_category B fs i st = Inr st'"
proof -
  obtain a e s2 where est: "establish B st = (a, e, s2)" by (metis prod_cases3)
  from fit_ok [OF establish_props(1) [OF est], of "standardize raw" n B category_compile category_fit s2]
  obtain s3 where "fit B category_compile category_fit a (standardize raw) (standardize raw) s2 = Inr s3"
    using assms(3) by (auto simp: shape_standardize)
  then show ?thesis
    using assms(1,2) est by (simp add: train_category_def index_def pickle_load_def)
qed

lemma pooled_run_props:
  assumes "pooled_run B fs st = Inr st'"
  shows "next_lid st' = next_lid st + 44"
    and "dom (disk st') =
           insert ''all_embedding_model.h5'' (insert ''all_model.h5'' (dom (disk st)))"
    and "\<forall>name. name \<noteq> ''all_embedding_model.h5'' \<and> name \<noteq> ''all_model.h5''
           \<longrightarrow> disk st' name = disk st name"
    and "calls st' = calls st @
           [\<lparr>call_compile = pooled_compile, call_fit = pooled_fit,
             call_lids = [next_lid st ..< next_lid st + 29],
             call_start = map (initializer B) [next_lid st ..< next_lid st + 29]\<rparr>]"
proof -
  obtain a e s2 where est: "establish B st = (a, e, s2)" by (metis prod_cases3)
  note p = establish_props [OF est]
  from assms est obtain x s3 where
    fit: "fit B pooled_compile pooled_fit a x x s2 = Inr s3" and
    st': "st' = save e ''all_embedding_model.h5'' (save a ''all_model.h5'' s3)"
    by (auto simp: pooled_run_def Let_def split: sum.splits)
  note f = fit_props [OF fit]
  show "next_lid st' = next_lid st + 44" by (simp add: st' save_def f(3) p(5))
  show "dom (disk st') =
           insert ''all_embedding_model.h5'' (insert ''all_model.h5'' (dom (disk st)))"
    by (simp add: st' save_def f(2) p(6))
  show "\<forall>name. name \<noteq> ''all_embedding_model.h5'' \<and> name \<noteq> ''all_model.h5''
           \<longrightarrow> disk st' name = disk st name"
    by (simp add: st' save_def f(2) p(6))
  show "calls st' = calls st @
           [\<lparr>call_compile = pooled_compile, call_fit = pooled_fit,
             call_lids = [next_lid st ..< next_lid st + 29],
             call_start = map (initializer B) [next_lid st ..< next_lid st + 29]\<rparr>]"
    by (simp add: st' save_def f(5) p(3,7,8))
qed

lemma pooled_run_ok:
  assumes "load_all fs pooled_paths = Inr as" "concatenate as = Inr raw"
    "shape raw = [n, 3, 64, 64]"
  shows "\<exists>st'. pooled_run B fs st = Inr st'"
proof -
  obtain a e s2 where est: "establish B st = (a, e, s2)" by (metis prod_cases3)
  from fit_ok [OF establish_props(1) [OF est], of "standardize raw" n B pooled_compile pooled_fit s2]
  obtain s3 where "fit B pooled_compile pooled_fit a (standardize raw) (standardize raw) s2 = Inr s3"
    using assms(3) by (auto simp: shape_standardize)
  then show ?thesis
    using assms(1,2) est by (simp add: pooled_run_def)
qed

lemma notebook_files:
  assumes "notebook B fs = Inr st"
  shows "dom (disk st) =
           {''dress_model.h5'', ''dressembedding_model.h5'', ''all_model.h5'',
            ''all_embedding_model.h5''}"
proof -
  from assms obtain s1 where
    s1: "train_category B fs 0 (cell4 B) = Inr s1" and st: "pooled_run B fs s1 = Inr st"
    by (auto simp: notebook_def category_loop_eq split: sum.splits)
  have "dom (disk s1) = {''dressembedding_model.h5'', ''dress_model.h5''}"
    using train_category_props(3) [OF s1] by (simp add: cell4_def item_def)
  then show ?thesis using pooled_run_props(2) [OF st] by auto
qed

lemma sample_load:
  "load_all (sample_files n v) pooled_paths =
     Inr [sample_batch n v, sample_batch n v, sample_batch n v, sample_batch n v,
          sample_batch n v, sample_batch n v, sample_batch n v]"
  by (simp add: sample_files_def pooled_paths_def pickle_load_def)

lemma sample_concatenate:
  "\<exists>raw. concatenate [sample_batch n v, sample_batch n v, sample_batch n v, sample_batch n v,
          sample_batch n v, sample_batch n v, sample_batch n v] = Inr raw
       \<and> shape raw = [n + n + n + n + n + n + n, 3, 64, 64]"
  by (simp add: shape_sample_batch same_tail_def first_dim_def)

lemma notebook_ok: "\<exists>st. notebook B (sample_files n v) = Inr st"
proof -
  have "\<exists>s1. train_category B (sample_files n v) 0 (cell4 B) = Inr s1"
    by (rule train_category_ok [where raw = "sample_batch n v" and n = n])
      (simp_all add: item_def sample_files_def pooled_paths_def shape_sample_batch)
  then obtain s1 where s1: "category_loop B (sample_files n v) (cell4 B) = Inr s1"
    by (auto simp: category_loop_eq)
  obtain raw where "concatenate [sample_batch n v, sample_batch n v, sample_batch n v,
      sample_batch n v, sample_batch n v, sample_batch n v, sample_batch n v] = Inr raw"
    "shape raw = [n + n + n + n + n + n + n, 3, 64, 64]"
    using sample_concatenate by blast
  from pooled_run_ok [OF sample_load this] obtain st where
    "pooled_run B (sample_files n v) s1 = Inr st" by blast
  with s1 show ?thesis by (simp add: notebook_def)
qed

lemma train_category_model_file:
  assumes "train_category B fs i st = Inr st'"
    and "fs (''../small_image_vectors/'' @ item ! i @ ''.pkl'') = Some raw"
    and "length (params (fit_loop B category_compile category_fit (standardize raw)
           (standardize raw) (map (initializer B) [next_lid st ..< next_lid st + 29]))) = 29"
  shows "disk st' (item ! i @ ''_model.h5'') =
           Some (json_autoencoder,
             params (fit_loop B category_compile category_fit (standardize raw)
               (standardize raw) (map (initializer B) [next_lid st ..< next_lid st + 29])))"
proof -
  obtain a e s2 where est: "establish B st = (a, e, s2)" by (metis prod_cases3)
  note p = establish_props [OF est]
  from train_category_props(1) [OF assms(1)] have i: "i < length item" .
  from assms(1,2) est i obtain s3 where
    fit: "fit B category_compile category_fit a (standardize raw) (standardize raw) s2 = Inr s3" and
    st': "st' = save e (item ! i @ ''embedding_model.h5'') (save a (item ! i @ ''_model.h5'') s3)"
    by (auto simp: train_category_def index_def pickle_load_def Let_def
          split: option.splits sum.splits)
  note f = fit_props [OF fit]
  have init: "map (heap s2) (lids a) = map (initializer B) [next_lid st ..< next_lid st + 29]"
    by (simp add: p(3,7))
  have "map (heap s3) (lids a) =
          params (fit_loop B category_compile category_fit (standardize raw) (standardize raw)
            (map (initializer B) [next_lid st ..< next_lid st + 29]))"
    unfolding f(4) init using assms(3) by (intro set_weights_map) (simp_all add: p(3))
  then show ?thesis by (simp add: st' save_def p(1))
qed

text \<open>
  C1. In the architecture cell the two models are built over the same fourteen encoder
  layer objects. The pair that the loop trains and saves is not: the two
  \<^verbatim>\<open>model_from_json\<close> calls build two models with no layer object in common, training
  changes the weights of the autoencoder only, and the encoder is saved with the weights
  it was initialised with. On the sample directory, with a library that adds 1 to every
  weight in each pass, \<^verbatim>\<open>dress_model.h5\<close> holds the weights of the layer objects 30
  to 58 after 11 passes and \<^verbatim>\<open>dressembedding_model.h5\<close> holds the initial weights
  of the layer objects 59 to 73.
\<close>

theorem saved_encoder_is_untrained:
  "take 14 (chain encoder0) = take 14 (chain autoencoder0)
   \<and> (\<exists>st. notebook (sample_backend 1 1) (sample_files 10 128) = Inr st
         \<and> disk st ''dress_model.h5'' =
             Some (json_autoencoder, map (\<lambda>i. int i + 11) [30..<59])
         \<and> disk st ''dressembedding_model.h5'' = Some (json_encoder, map int [59..<74]))"
proof
  show "take 14 (chain encoder0) = take 14 (chain autoencoder0)"
    by (simp add: encoder0_def autoencoder0_def encoder_layers_def autoencoder_layers_def
          encoder_stages_def take_zip)
next
  let ?B = "sample_backend 1 1" and ?fs = "sample_files 10 128"
  let ?x = "standardize (sample_batch 10 128)"
  obtain st where st: "notebook ?B ?fs = Inr st" using notebook_ok by blast
  then obtain s1 where
    s1: "train_category ?B ?fs 0 (cell4 ?B) = Inr s1" and p: "pooled_run ?B ?fs s1 = Inr st"
    by (auto simp: notebook_def category_loop_eq split: sum.splits)
  have raw: "?fs (''../small_image_vectors/'' @ item ! 0 @ ''.pkl'') = Some (sample_batch 10 128)"
    by (simp add: sample_files_def item_def pooled_paths_def)
  have init: "initializer ?B = int" by (simp add: sample_backend_def)
  have n: "next_lid (cell4 ?B) = 30" by (simp add: cell4_def)
  have len: "length (params (fit_loop ?B category_compile category_fit ?x ?x
      (map (initializer ?B) [next_lid (cell4 ?B) ..< next_lid (cell4 ?B) + 29]))) = 29"
    unfolding sample_fit(2) by simp
  have "disk s1 (item ! 0 @ ''_model.h5'') =
      Some (json_autoencoder, map (\<lambda>i. int i + 11) [30..<59])"
    unfolding train_category_model_file [OF s1 raw len] sample_fit(2) init n by simp
  moreover have "disk s1 (item ! 0 @ ''embedding_model.h5'') =
      Some (json_encoder, map int [59..<74])"
    unfolding train_category_props(4) [OF s1] init n by simp
  moreover have "item ! 0 = ''dress''" by (simp add: item_def)
  ultimately have "disk s1 ''dress_model.h5'' =
      Some (json_autoencoder, map (\<lambda>i. int i + 11) [30..<59])"
    "disk s1 ''dressembedding_model.h5'' = Some (json_encoder, map int [59..<74])"
    by simp_all
  moreover have "disk st ''dress_model.h5'' = disk s1 ''dress_model.h5''"
    "disk st ''dressembedding_model.h5'' = disk s1 ''dressembedding_model.h5''"
    using pooled_run_props(3) [OF p] by simp_all
  ultimately show "\<exists>st. notebook ?B ?fs = Inr st
         \<and> disk st ''dress_model.h5'' =
             Some (json_autoencoder, map (\<lambda>i. int i + 11) [30..<59])
         \<and> disk st ''dressembedding_model.h5'' = Some (json_encoder, map int [59..<74])"
    using st by simp
qed

text \<open>
  C2. The loop runs over \<^verbatim>\<open>range(1)\<close>, so its body runs for \<^verbatim>\<open>item[0]\<close> only: a
  run of the notebook on a directory that holds all seven files writes the two files of
  \<^verbatim>\<open>dress\<close> and the two files of the pooled run, and nothing for the other six
  categories.
\<close>

theorem loop_trains_one_category:
  "\<exists>st. notebook (sample_backend 1 1) (sample_files 10 128) = Inr st
     \<and> dom (disk st) =
         {''dress_model.h5'', ''dressembedding_model.h5'', ''all_model.h5'',
          ''all_embedding_model.h5''}
     \<and> disk st ''top_model.h5'' = None \<and> disk st ''topembedding_model.h5'' = None"
proof -
  obtain st where st: "notebook (sample_backend 1 1) (sample_files 10 128) = Inr st"
    using notebook_ok by blast
  note d = notebook_files [OF st]
  have "''top_model.h5'' \<notin> dom (disk st)" "''topembedding_model.h5'' \<notin> dom (disk st)"
    unfolding d by simp_all
  then have "disk st ''top_model.h5'' = None" "disk st ''topembedding_model.h5'' = None"
    by (simp_all only: domIff not_not)
  with st d show ?thesis by blast
qed

lemma notebook_runs:
  assumes "notebook B fs = Inr st"
  shows "\<exists>s1. train_category B fs 0 (cell4 B) = Inr s1 \<and> pooled_run B fs s1 = Inr st"
  using assms by (auto simp: notebook_def category_loop_eq split: sum.splits)

lemma notebook_calls:
  assumes "notebook B fs = Inr st"
  shows "calls st =
           [\<lparr>call_compile = category_compile, call_fit = category_fit,
             call_lids = [30..<59], call_start = map (initializer B) [30..<59]\<rparr>,
            \<lparr>call_compile = pooled_compile, call_fit = pooled_fit,
             call_lids = [74..<103], call_start = map (initializer B) [74..<103]\<rparr>]"
proof -
  from notebook_runs [OF assms] obtain s1 where
    s1: "train_category B fs 0 (cell4 B) = Inr s1" and st: "pooled_run B fs s1 = Inr st"
    by blast
  have n: "next_lid (cell4 B) = 30" "calls (cell4 B) = []" by (simp_all add: cell4_def)
  have n1: "next_lid s1 = 74" using train_category_props(2) [OF s1] n by simp
  show ?thesis
    using train_category_props(5) [OF s1] pooled_run_props(4) [OF st] by (simp add: n n1)
qed

lemma arguments_fixed:
  "(category_compile, category_fit) = fixed_arguments"
  "(pooled_compile, pooled_fit) = fixed_arguments"
  by (simp_all add: fixed_arguments_def category_compile_def category_fit_def
        pooled_compile_def pooled_fit_def early_stopping_def)

section \<open>The fit calls of a run\<close>

text \<open>
  C5. Every \<^verbatim>\<open>fit\<close> call uses the fixed hyperparameters. A run of the notebook makes
  exactly two \<^verbatim>\<open>fit\<close> calls, one in the loop and one in the pooled run, and both are
  made with the fixed hyperparameters; more generally, the loop body, for whatever index
  and from whatever state it is run, makes exactly one \<^verbatim>\<open>fit\<close> call, with the fixed
  hyperparameters, and so does the pooled run.
\<close>

theorem fit_calls_use_fixed_hyperparameters:
  "(notebook B fs = Inr st \<longrightarrow>
      map call_hyper (calls st) = [fixed_arguments, fixed_arguments])
   \<and> (train_category B fs i s = Inr s' \<longrightarrow>
        map call_hyper (calls s') = map call_hyper (calls s) @ [fixed_arguments])
   \<and> (pooled_run B fs t = Inr t' \<longrightarrow>
        map call_hyper (calls t') = map call_hyper (calls t) @ [fixed_arguments])"
proof (intro conjI impI)
  assume "notebook B fs = Inr st"
  from notebook_calls [OF this]
  show "map call_hyper (calls st) = [fixed_arguments, fixed_arguments]"
    by (simp add: call_hyper_def arguments_fixed)
next
  assume "train_category B fs i s = Inr s'"
  from train_category_props(5) [OF this]
  show "map call_hyper (calls s') = map call_hyper (calls s) @ [fixed_arguments]"
    by (simp add: call_hyper_def arguments_fixed)
next
  assume "pooled_run B fs t = Inr t'"
  from pooled_run_props(4) [OF this]
  show "map call_hyper (calls t') = map call_hyper (calls t) @ [fixed_arguments]"
    by (simp add: call_hyper_def arguments_fixed)
qed

text \<open>
  A run of the notebook on the sample directory: the loop body makes one call, the pooled
  run a second one, both with 400 passes at most, batches of 100, a split of 15 percent
  and patience 10.
\<close>

theorem fit_calls_use_fixed_hyperparameters_witness:
  "\<exists>s1 st. train_category (sample_backend 1 1) (sample_files 10 128) 0
               (cell4 (sample_backend 1 1)) = Inr s1
     \<and> pooled_run (sample_backend 1 1) (sample_files 10 128) s1 = Inr st
     \<and> notebook (sample_backend 1 1) (sample_files 10 128) = Inr st
     \<and> map call_hyper (calls s1) = [fixed_arguments]
     \<and> map call_hyper (calls st) = [fixed_arguments, fixed_arguments]
     \<and> map (epochs \<circ> snd \<circ> call_hyper) (calls st) = [400, 400]
     \<and> map (batch_size \<circ> snd \<circ> call_hyper) (calls st) = [100, 100]
     \<and> map (validation_split \<circ> snd \<circ> call_hyper) (calls st) = [15 / 100, 15 / 100]
     \<and> map (map patience \<circ> callbacks \<circ> snd \<circ> call_hyper) (calls st) = [[10], [10]]
     \<and> map (optimizer \<circ> fst \<circ> call_hyper) (calls st) = [''adadelta'', ''adadelta'']
     \<and> map (loss \<circ> fst \<circ> call_hyper) (calls st) =
         [''binary_crossentropy'', ''binary_crossentropy'']"
proof -
  let ?B = "sample_backend 1 1" and ?fs = "sample_files 10 128"
  obtain st where st: "notebook ?B ?fs = Inr st" using notebook_ok by blast
  from notebook_runs [OF st] obtain s1 where
    s1: "train_category ?B ?fs 0 (cell4 ?B) = Inr s1" and p: "pooled_run ?B ?fs s1 = Inr st"
    by blast
  note h = fit_calls_use_fixed_hyperparameters [of ?B ?fs st 0 "cell4 ?B" s1 s1 st]
  from h st have a: "map call_hyper (calls st) = [fixed_arguments, fixed_arguments]"
    by blast
  from h s1 have b: "map call_hyper (calls s1) = [fixed_arguments]"
    by (simp add: cell4_def)
  have c: "map (f \<circ> call_hyper) (calls st) = [f fixed_arguments, f fixed_arguments]"
    for f :: "compile_args \<times> fit_args \<Rightarrow> 'b"
    using a by (metis list.simps(8,9) map_map)
  show ?thesis
    using st s1 p a b
      c [of "epochs \<circ> snd"] c [of "batch_size \<circ> snd"] c [of "validation_split \<circ> snd"]
      c [of "map patience \<circ> callbacks \<circ> snd"] c [of "optimizer \<circ> fst"] c [of "loss \<circ> fst"]
    by (auto simp: fixed_arguments_def comp_assoc)
qed



end
